theory Spec2Isabelle
  imports Main "HOL-Library.Word" "HOL-Library.Sublist" "HOL-Library.Multiset"
begin

section \<open>Strings\<close>

text \<open>
  A JavaScript string is a sequence of UTF-16 code units. Regular expressions without
  the \<open>u\<close> flag, \<open>trimEnd\<close> and \<open>replaceAll\<close> all work on code units, so a string
  is modelled as a list of 16-bit words. \<open>js\<close> embeds an ASCII literal.
\<close>

type_synonym jschar = "16 word"
type_synonym jsstring = "jschar list"

definition js :: "string \<Rightarrow> jsstring" where
  "js s = map (\<lambda>c. of_nat (of_char c)) s"

text \<open>ECMAScript \<open>LineTerminator\<close>: LF, CR, LS, PS.\<close>

definition isLineTerminator :: "jschar \<Rightarrow> bool" where
  "isLineTerminator c = (c = 0x0A \<or> c = 0x0D \<or> c = 0x2028 \<or> c = 0x2029)"

text \<open>
  ECMAScript \<open>WhiteSpace\<close>: TAB, VT, FF, SP, NBSP, ZWNBSP and the code points of
  category Zs. \<open>trimEnd\<close> strips white space and line terminators from the end.
\<close>

definition isWhiteSpace :: "jschar \<Rightarrow> bool" where
  "isWhiteSpace c = (c = 0x09 \<or> c = 0x0B \<or> c = 0x0C \<or> c = 0x20 \<or> c = 0xA0 \<or> c = 0xFEFF
     \<or> c = 0x1680 \<or> (0x2000 \<le> c \<and> c \<le> 0x200A) \<or> c = 0x202F \<or> c = 0x205F \<or> c = 0x3000)"

definition trimEnd :: "jsstring \<Rightarrow> jsstring" where
  "trimEnd s = rev (dropWhile (\<lambda>c. isWhiteSpace c \<or> isLineTerminator c) (rev s))"

section \<open>Marker codec\<close>

text \<open>
  \<open>normalizeGUID(value: string|undefined)\<close>: a falsy value (undefined or the empty
  string) becomes the text \<open>undefined\<close>; otherwise every double quote (0x22) and every
  \<open>>\<close> (0x3E) is removed.
\<close>

definition normalizeGUID :: "jsstring option \<Rightarrow> jsstring" where
  "normalizeGUID v = (case v of
       None \<Rightarrow> js ''undefined''
     | Some s \<Rightarrow> if s = [] then js ''undefined''
                else filter (\<lambda>c. c \<noteq> 0x22 \<and> c \<noteq> 0x3E) s)"

text \<open>The two literal parts of the marker: \<open><!-- GUID: "\<close> and \<open>" -->\<close>.\<close>

definition GUID_OPEN :: jsstring where
  "GUID_OPEN = js ''<!-- GUID: '' @ [0x22]"

definition GUID_CLOSE :: jsstring where
  "GUID_CLOSE = [0x22] @ js '' -->''"

definition addGUID :: "jsstring \<Rightarrow> jsstring \<Rightarrow> jsstring" where
  "addGUID markdown guid =
     trimEnd markdown @ [0x0A, 0x0A] @ (GUID_OPEN @ normalizeGUID (Some guid) @ GUID_CLOSE)"

text \<open>
  \<open>GUID_PATTERN\<close> is \<open>/^<!-- GUID: "([^">]+)" -->/mg\<close> (the source escapes the \<open><\<close>
  with a backslash, an identity escape). Its parts, left to right:
  the assertion \<open>^\<close> (with the \<open>m\<close> flag: the start of the input or just after a line
  terminator), the literal \<open>GUID_OPEN\<close>, group 1
  \<open>[^">]+\<close> (greedy, one or more code units that are neither 0x22 nor 0x3E; a negated
  class also matches line terminators), the literal \<open>GUID_CLOSE\<close>.
\<close>

definition guidClass :: "jschar \<Rightarrow> bool" where
  "guidClass c = (c \<noteq> 0x22 \<and> c \<noteq> 0x3E)"

text \<open>
  The greedy quantifier first takes the longest run \<open>k\<close> of class members and, when the
  rest of the pattern fails there, gives code units back one at a time down to one.
\<close>

fun giveBack :: "nat \<Rightarrow> jsstring \<Rightarrow> jsstring option" where
  "giveBack 0 r = None"
| "giveBack (Suc k) r =
     (if prefix GUID_CLOSE (drop (Suc k) r) then Some (take (Suc k) r) else giveBack k r)"

text \<open>
  One attempt of the pattern after \<open>^\<close>, with its left end at the start of \<open>s\<close>:
  group 1 and the length of the whole match.
\<close>

definition matchHere :: "jsstring \<Rightarrow> (jsstring \<times> nat) option" where
  "matchHere s =
     (if prefix GUID_OPEN s then
        (let r = drop (length GUID_OPEN) s in
         case giveBack (length (takeWhile guidClass r)) r of
           None \<Rightarrow> None
         | Some g \<Rightarrow> Some (g, length GUID_OPEN + length g + length GUID_CLOSE))
      else None)"

definition atLineStart :: "jsstring \<Rightarrow> nat \<Rightarrow> bool" where
  "atLineStart s i = (i = 0 \<or> isLineTerminator (s ! (i - 1)))"

text \<open>
  \<open>markdown.matchAll(GUID_PATTERN)\<close>, from \<open>lastIndex = i\<close>: the search tries each index
  in turn until one matches or the index passes the end; after a match it continues at
  the end of the match (one further when the match is empty). Of each match only
  group 1 is kept, the one part \<open>findGUID\<close> reads.
\<close>

function matchAllFrom :: "jsstring \<Rightarrow> nat \<Rightarrow> jsstring list" where
  "matchAllFrom s i =
     (if length s < i then []
      else case (if atLineStart s i then matchHere (drop i s) else None) of
             None \<Rightarrow> matchAllFrom s (Suc i)
           | Some (g, n) \<Rightarrow> g # matchAllFrom s (if n = 0 then Suc i else i + n))"
  by pat_completeness auto
termination
  by (relation "measure (\<lambda>(s, i). Suc (length s) - i)") (auto split: if_splits)

definition findGUID :: "jsstring \<Rightarrow> jsstring option" where
  "findGUID markdown =
     (let results = matchAllFrom markdown 0
      in if length results = 0 then None else Some (results ! 0))"

section \<open>Time values\<close>

text \<open>
  \<open>Date.prototype.valueOf\<close> returns the time value of a date: \<open>NaN\<close> for an invalid
  date, otherwise an integral number of milliseconds since the epoch, of magnitude at
  most 8.64e15. On these numbers the subtractions and comparisons of the source are
  exact in double precision (the comparator's result is used for its sign only), so a
  time value is \<open>NaN\<close> or an integer.
\<close>

datatype timevalue = NaN | Ms int

definition numMinus :: "timevalue \<Rightarrow> timevalue \<Rightarrow> timevalue" where
  "numMinus a b = (case (a, b) of (Ms x, Ms y) \<Rightarrow> Ms (x - y) | _ \<Rightarrow> NaN)"

text \<open>\<open>x < y\<close> for a bigint \<open>x\<close> and a number \<open>y\<close>: false when \<open>y\<close> is \<open>NaN\<close>.\<close>

definition bigintLess :: "int \<Rightarrow> timevalue \<Rightarrow> bool" where
  "bigintLess x y = (case y of NaN \<Rightarrow> False | Ms b \<Rightarrow> x < b)"

definition ONE_WEEK_MS :: int where
  "ONE_WEEK_MS = 1000 * 60 * 60 * 24 * 7"

section \<open>Errors and the platform\<close>

text \<open>
  What the source can raise: the string thrown by the \<open>FeedItem\<close> constructor, the
  \<open>RangeError\<close> of \<open>BigInt\<close> on a number that is not an integer, the \<open>SyntaxError\<close> of
  a malformed regular expression, and failures of the collaborators (fetching and
  parsing the feed, the ledger's answer to a submission), which carry a message.
  \<open>OutsideFragment\<close> is not raised by the program: the reference model of
  \<open>String.prototype.search\<close> below returns it for a pattern it does not cover.
\<close>

datatype error = EpochDate | RangeError | SyntaxError | External string | OutsideFragment

text \<open>
  Functions the source calls and that are not part of it. \<open>htmlToMarkdown\<close> lives in
  \<open>src/markdown.ts\<close>, which is not among the sources; \<open>stringSearch\<close> is
  \<open>String.prototype.search\<close> applied to a string argument (the argument is compiled as
  a regular expression; the result is the index of the first match, or -1);
  \<open>unescape\<close> is the HTML entity decoder of the standard library; \<open>arraySort\<close> is
  \<open>Array.prototype.sort\<close> of the engine the program runs on, applied to a comparator
  and an array of items \<open>'i\<close>. They are parameters of the model: a theorem stated for
  every \<open>platform\<close> holds whatever they compute.
\<close>

record 'i platform =
  htmlToMarkdown :: "jsstring option \<Rightarrow> error + jsstring"
  stringSearch :: "jsstring \<Rightarrow> jsstring \<Rightarrow> error + int"
  unescape :: "jsstring \<Rightarrow> jsstring"
  arraySort :: "('i \<Rightarrow> 'i \<Rightarrow> timevalue) \<Rightarrow> 'i list \<Rightarrow> 'i list"

text \<open>
  The label of the backlink as the source file has it: the code units 0xE2, 0x20AC,
  0xA6 follow \<open>Continue Reading\<close>.
\<close>

definition addURL :: "'i platform \<Rightarrow> jsstring \<Rightarrow> jsstring \<Rightarrow> error + jsstring" where
  "addURL P markdown url =
     (case stringSearch P markdown url of
        Inl e \<Rightarrow> Inl e
      | Inr i \<Rightarrow>
          if i \<ge> 0 then Inr markdown
          else Inr (trimEnd markdown @ [0x0A, 0x0A]
                 @ (js ''[Continue Reading'' @ [0xE2, 0x20AC, 0xA6] @ js '']('' @ url @ js '')'')))"

section \<open>Feed items\<close>

record ItemData =
  d_guid :: jsstring
  d_title :: "jsstring option"
  d_markdown :: jsstring
  d_published :: timevalue

record FeedItem =
  guid :: jsstring
  title :: "jsstring option"
  markdown :: jsstring
  published :: timevalue
  timestampMsUTC :: timevalue

text \<open>
  The constructor. A \<open>Date\<close> is represented by its time value, so \<open>published.valueOf()\<close>
  is \<open>d_published\<close>. \<open>NaN == 0\<close> is false.
\<close>

definition newFeedItem :: "ItemData \<Rightarrow> error + FeedItem" where
  "newFeedItem d =
     (let item = \<lparr> guid = d_guid d, title = d_title d, markdown = d_markdown d,
                    published = d_published d, timestampMsUTC = d_published d \<rparr>
      in if timestampMsUTC item = Ms 0 then Inl EpochDate else Inr item)"

text \<open>
  The comparator handed to \<open>itemsToStore.sort\<close>. Its result is \<open>NaN\<close> as soon as one
  of the two dates is invalid; the comparator is then not a consistent one, and
  the language leaves the order of the sorted array to the engine.
\<close>

definition sortByDate :: "FeedItem \<Rightarrow> FeedItem \<Rightarrow> timevalue" where
  "sortByDate a b = numMinus (timestampMsUTC a) (timestampMsUTC b)"

text \<open>
  A ledger record as \<open>toProtobuf\<close> builds it and as \<open>getItem\<close> returns it: the
  timestamp and the \<open>itemType\<close> oneof. The serialised bytes and the signature are
  opaque to the source and are not modelled.
\<close>

datatype itemType = Post "jsstring option" jsstring | Profile jsstring jsstring | Comment | Unset

record ledgerItem =
  timestampMsUtc :: int
  itemType :: itemType

text \<open>\<open>BigInt(x)\<close> throws a \<open>RangeError\<close> when \<open>x\<close> is \<open>NaN\<close>.\<close>

definition toProtobuf :: "FeedItem \<Rightarrow> error + ledgerItem" where
  "toProtobuf item =
     (case timestampMsUTC item of
        NaN \<Rightarrow> Inl RangeError
      | Ms t \<Rightarrow> Inr \<lparr> timestampMsUtc = t, itemType = Post (title item) (markdown item) \<rparr>)"

section \<open>Item normalizer\<close>

record textField =
  fvalue :: "jsstring option"
  ftype :: "jsstring option"

definition getText :: "'i platform \<Rightarrow> textField option \<Rightarrow> jsstring option" where
  "getText P field =
     (case field of
        None \<Rightarrow> None
      | Some f \<Rightarrow>
          (case fvalue f of
             None \<Rightarrow> None
           | Some v \<Rightarrow>
               if v = [] then Some v
               else if ftype f = Some (js ''html'') \<or> ftype f = Some (js ''xhtml'')
                 then Some (unescape P v)
               else Some v))"

text \<open>The fields of an \<open>rss.FeedEntry\<close> that the source reads.\<close>

record feedLink =
  href :: "jsstring option"

record FeedEntry =
  entryId :: jsstring
  entryPublished :: "timevalue option"
  dcModified :: "timevalue option"
  content :: "textField option"
  description :: "textField option"
  links :: "feedLink list"
  entryTitle :: "textField option"

text \<open>
  \<open>FeedItem.fromEntry\<close>: \<open>Inr None\<close> is the \<open>null\<close> returned for an entry with no
  date; a \<open>Date\<close> object is always truthy, an invalid one too.
\<close>

definition fromEntry :: "'i platform \<Rightarrow> FeedEntry \<Rightarrow> error + FeedItem option" where
  "fromEntry P item =
     (let date = (case entryPublished item of Some d \<Rightarrow> Some d | None \<Rightarrow> dcModified item)
      in case date of
           None \<Rightarrow> Inr None
         | Some pub \<Rightarrow>
             (let body = (case content item of Some c \<Rightarrow> Some c | None \<Rightarrow> description item)
              in case htmlToMarkdown P (case body of None \<Rightarrow> None | Some b \<Rightarrow> fvalue b) of
                   Inl e \<Rightarrow> Inl e
                 | Inr md0 \<Rightarrow>
                     (let url = (case links item of [] \<Rightarrow> None | l # _ \<Rightarrow> href l)
                      in case (case url of
                                 None \<Rightarrow> Inr md0
                               | Some u \<Rightarrow> if u = [] then Inr md0 else addURL P md0 u) of
                           Inl e \<Rightarrow> Inl e
                         | Inr md1 \<Rightarrow>
                             (case newFeedItem \<lparr> d_guid = entryId item, d_title = getText P (entryTitle item),
                                     d_markdown = addGUID md1 (entryId item), d_published = pub \<rparr> of
                                Inl e \<Rightarrow> Inl e
                              | Inr fi \<Rightarrow> Inr (Some fi)))))"

section \<open>History scanner\<close>

text \<open>
  One element of \<open>client.getUserItems(userID)\<close>, together with what
  \<open>client.getItem(userID, sig)\<close> answers for its signature (\<open>None\<close>: no such item).
  The listing is the sequence in the order the client yields it.
\<close>

record itemListEntry =
  entryTimestampMsUtc :: int
  fetched :: "ledgerItem option"

fun scanItems :: "timevalue \<Rightarrow> itemListEntry list \<Rightarrow> jsstring set \<Rightarrow> jsstring set" where
  "scanItems cutoff [] guids = guids"
| "scanItems cutoff (entry # entries) guids =
     (if bigintLess (entryTimestampMsUtc entry) cutoff then guids
      else case fetched entry of
             None \<Rightarrow> scanItems cutoff entries guids
           | Some item \<Rightarrow>
               (case itemType item of
                  Post t body \<Rightarrow>
                    (case findGUID body of
                       None \<Rightarrow> scanItems cutoff entries guids
                     | Some g \<Rightarrow>
                         if g = [] then scanItems cutoff entries guids
                         else scanItems cutoff entries (insert g guids))
                | _ \<Rightarrow> scanItems cutoff entries guids))"

definition getSeenGUIDs :: "itemListEntry list \<Rightarrow> timevalue \<Rightarrow> jsstring set" where
  "getSeenGUIDs userItems oldestTimestamp =
     (let cutoff = numMinus oldestTimestamp (Ms ONE_WEEK_MS)
      in scanItems cutoff userItems {})"

section \<open>Reconciler\<close>

definition MAX_FEED_ITEMS :: nat where
  "MAX_FEED_ITEMS = 200"

text \<open>
  The ledger client within one run: the listing of the identity's records (each
  listed entry carries its signature), and the answer to each submission (\<open>None\<close>:
  stored). Failures of the read requests are not part of this model.
\<close>

record ledgerClient =
  userItems :: "itemListEntry list"
  putItem :: "ledgerItem \<Rightarrow> error option"

text \<open>
  The outcome of one run: the error that ended it, if any; the items logged as
  stored, in order; the records submitted for them.
\<close>

record syncResult =
  failure :: "error option"
  stored :: "FeedItem list"
  submitted :: "ledgerItem list"

fun collectItems :: "'i platform \<Rightarrow> FeedEntry list \<Rightarrow> error + FeedItem list" where
  "collectItems P [] = Inr []"
| "collectItems P (entry # entries) =
     (case fromEntry P entry of
        Inl e \<Rightarrow> Inl e
      | Inr None \<Rightarrow> collectItems P entries
      | Inr (Some item) \<Rightarrow>
          (case collectItems P entries of
             Inl e \<Rightarrow> Inl e
           | Inr items \<Rightarrow> Inr (item # items)))"

fun putItems :: "ledgerClient \<Rightarrow> FeedItem list \<Rightarrow> syncResult" where
  "putItems client [] = \<lparr> failure = None, stored = [], submitted = [] \<rparr>"
| "putItems client (item # items) =
     (case toProtobuf item of
        Inl e \<Rightarrow> \<lparr> failure = Some e, stored = [], submitted = [] \<rparr>
      | Inr bytes \<Rightarrow>
          (case putItem client bytes of
             Some e \<Rightarrow> \<lparr> failure = Some e, stored = [], submitted = [] \<rparr>
           | None \<Rightarrow>
               (let r = putItems client items
                in r \<lparr> stored := item # stored r, submitted := bytes # submitted r \<rparr>)))"

text \<open>\<open>feed\<close> is what \<open>readRSS(feedConfig.rssUrl)\<close> gives: the entries, or a failure.\<close>

definition syncFeed :: "FeedItem platform \<Rightarrow> error + FeedEntry list \<Rightarrow> ledgerClient \<Rightarrow> syncResult" where
  "syncFeed P feed client =
     (case feed of
        Inl e \<Rightarrow> \<lparr> failure = Some e, stored = [], submitted = [] \<rparr>
      | Inr entries \<Rightarrow>
          (case collectItems P (take MAX_FEED_ITEMS entries) of
             Inl e \<Rightarrow> \<lparr> failure = Some e, stored = [], submitted = [] \<rparr>
           | Inr itemsToStore \<Rightarrow>
               if length itemsToStore = 0 then \<lparr> failure = None, stored = [], submitted = [] \<rparr>
               else
                 (let sortedItems = arraySort P sortByDate itemsToStore;
                      oldestTimestamp = timestampMsUTC (sortedItems ! 0);
                      seenGUIDs = getSeenGUIDs (userItems client) oldestTimestamp;
                      remaining = filter (\<lambda>i. guid i \<notin> seenGUIDs) sortedItems
                  in if length remaining = 0
                     then \<lparr> failure = None, stored = [], submitted = [] \<rparr>
                     else putItems client remaining)))"

section \<open>The ledger between runs\<close>

text \<open>
  What a submission changes in the listing of later runs. The listing is
  reverse-chronological by the records' own timestamps, so a stored record is listed
  before the first record that is not newer than it.
\<close>

fun storeItem :: "ledgerItem \<Rightarrow> itemListEntry list \<Rightarrow> itemListEntry list" where
  "storeItem r [] = [\<lparr> entryTimestampMsUtc = timestampMsUtc r, fetched = Some r \<rparr>]"
| "storeItem r (e # es) =
     (if entryTimestampMsUtc e \<le> timestampMsUtc r
      then \<lparr> entryTimestampMsUtc = timestampMsUtc r, fetched = Some r \<rparr> # e # es
      else e # storeItem r es)"

definition ledgerAfter :: "itemListEntry list \<Rightarrow> ledgerItem list \<Rightarrow> itemListEntry list" where
  "ledgerAfter listing rs = foldl (\<lambda>l r. storeItem r l) listing rs"

text \<open>
  A feed of the configuration (the signing key is opaque and left out), and the world
  a batch runs in: what fetching each URL gives, each identity's listing, and the
  server's answer to a submission.
\<close>

record Feed =
  name :: jsstring
  rssUrl :: jsstring
  userId :: jsstring

record world =
  rssFeeds :: "jsstring \<Rightarrow> error + FeedEntry list"
  ledgers :: "jsstring \<Rightarrow> itemListEntry list"
  answers :: "ledgerItem \<Rightarrow> error option"

definition syncFeedIn :: "FeedItem platform \<Rightarrow> Feed \<Rightarrow> world \<Rightarrow> error option \<times> world" where
  "syncFeedIn P feedConfig w =
     (let r = syncFeed P (rssFeeds w (rssUrl feedConfig))
                \<lparr> userItems = ledgers w (userId feedConfig), putItem = answers w \<rparr>
      in (failure r,
          w \<lparr> ledgers := (ledgers w)
                (userId feedConfig := ledgerAfter (ledgers w (userId feedConfig)) (submitted r)) \<rparr>))"

section \<open>Batch driver\<close>

text \<open>
  The loop of \<open>syncCommand\<close>. \<open>errorContext\<close> lives in \<open>src/logging.ts\<close>, which is not
  among the sources: it is a parameter here, a wrapper around the action it is handed.
  \<open>sync\<close> is the action for one feed, \<open>syncFeed(feedConfig, client)\<close>, acting on a state.
\<close>

fun syncFeeds ::
  "(jsstring \<Rightarrow> ('w \<Rightarrow> error option \<times> 'w) \<Rightarrow> 'w \<Rightarrow> error option \<times> 'w)
    \<Rightarrow> (Feed \<Rightarrow> 'w \<Rightarrow> error option \<times> 'w) \<Rightarrow> Feed list \<Rightarrow> 'w \<Rightarrow> error list \<Rightarrow> error list \<times> 'w" where
  "syncFeeds errorContext sync [] w errors = (errors, w)"
| "syncFeeds errorContext sync (feedConfig # rest) w errors =
     (case errorContext
             (js ''Syncing items for ''
                @ (if name feedConfig \<noteq> [] then name feedConfig else rssUrl feedConfig))
             (sync feedConfig) w of
        (None, w') \<Rightarrow> syncFeeds errorContext sync rest w' errors
      | (Some e, w') \<Rightarrow> syncFeeds errorContext sync rest w' (errors @ [e]))"

text \<open>
  How the command ends: it returns, it calls \<open>Deno.exit(1)\<close>, or it rejects with the
  error of loading the configuration. \<open>loaded\<close> is the result of that loading.
\<close>

datatype outcome = Returned | Exit1 | Rejected error

definition syncCommand ::
  "(jsstring \<Rightarrow> ('w \<Rightarrow> error option \<times> 'w) \<Rightarrow> 'w \<Rightarrow> error option \<times> 'w)
    \<Rightarrow> (Feed \<Rightarrow> 'w \<Rightarrow> error option \<times> 'w) \<Rightarrow> error + Feed list \<Rightarrow> 'w \<Rightarrow> outcome \<times> 'w" where
  "syncCommand errorContext sync loaded w =
     (case loaded of
        Inl e \<Rightarrow> (Rejected e, w)
      | Inr feeds \<Rightarrow>
          (case syncFeeds errorContext sync feeds w [] of
             (errors, w') \<Rightarrow> (if length errors > 0 then Exit1 else Returned, w')))"

section \<open>Reference model of \<open>String.prototype.search\<close> on a pattern fragment\<close>

text \<open>
  \<open>markdown.search(url)\<close> compiles \<open>url\<close> as a regular expression without flags. This
  section models a fragment of the pattern language: a sequence of atoms, each a
  literal code unit or \<open>.\<close> (any code unit but a line terminator), each optionally
  followed by one of the quantifiers \<open>* + ?\<close> and then optionally by \<open>?\<close> (lazy). A
  quantifier with nothing to repeat is a \<open>SyntaxError\<close>. A pattern containing one of
  \<open>^ $ ( ) [ ] { } |\<close> or a backslash is outside the fragment (\<open>None\<close>). Whether and
  where a match exists does not depend on greedy or lazy, so the two are not told apart.
\<close>

datatype atom = Lit jschar | Dot

datatype quantifier = Once | Optional | Star | Plus

datatype pstate = AtStart | AfterAtom | AfterQuantifier

definition isQuantifier :: "jschar \<Rightarrow> bool" where
  "isQuantifier c = (c = 0x2A \<or> c = 0x2B \<or> c = 0x3F)"

definition quantifierOf :: "jschar \<Rightarrow> quantifier" where
  "quantifierOf c = (if c = 0x2A then Star else if c = 0x2B then Plus else Optional)"

definition outsideFragment :: "jschar \<Rightarrow> bool" where
  "outsideFragment c = (c = 0x5E \<or> c = 0x24 \<or> c = 0x5C \<or> c = 0x28 \<or> c = 0x29
     \<or> c = 0x5B \<or> c = 0x5D \<or> c = 0x7B \<or> c = 0x7D \<or> c = 0x7C)"

text \<open>The terms read so far are kept newest first.\<close>

fun parseTerms ::
  "pstate \<Rightarrow> (atom \<times> quantifier) list \<Rightarrow> jsstring \<Rightarrow> (error + (atom \<times> quantifier) list) option" where
  "parseTerms st acc [] = Some (Inr (rev acc))"
| "parseTerms st acc (c # cs) =
     (if outsideFragment c then None
      else if isQuantifier c then
        (case st of
           AtStart \<Rightarrow> Some (Inl SyntaxError)
         | AfterAtom \<Rightarrow>
             (case acc of
                [] \<Rightarrow> Some (Inl SyntaxError)
              | (a, q) # acc' \<Rightarrow> parseTerms AfterQuantifier ((a, quantifierOf c) # acc') cs)
         | AfterQuantifier \<Rightarrow>
             if c = 0x3F then parseTerms AtStart acc cs else Some (Inl SyntaxError))
      else parseTerms AfterAtom ((if c = 0x2E then Dot else Lit c, Once) # acc) cs)"

fun atomMatches :: "atom \<Rightarrow> jschar \<Rightarrow> bool" where
  "atomMatches (Lit c) x = (x = c)"
| "atomMatches Dot x = (\<not> isLineTerminator x)"

text \<open>Some prefix of the string matches the sequence of terms.\<close>

fun matchesAt :: "(atom \<times> quantifier) list \<Rightarrow> jsstring \<Rightarrow> bool" where
  "matchesAt [] s = True"
| "matchesAt ((a, Once) # p) [] = False"
| "matchesAt ((a, Once) # p) (x # xs) = (atomMatches a x \<and> matchesAt p xs)"
| "matchesAt ((a, Optional) # p) [] = matchesAt p []"
| "matchesAt ((a, Optional) # p) (x # xs) =
     ((atomMatches a x \<and> matchesAt p xs) \<or> matchesAt p (x # xs))"
| "matchesAt ((a, Star) # p) [] = matchesAt p []"
| "matchesAt ((a, Star) # p) (x # xs) =
     ((atomMatches a x \<and> matchesAt ((a, Star) # p) xs) \<or> matchesAt p (x # xs))"
| "matchesAt ((a, Plus) # p) [] = False"
| "matchesAt ((a, Plus) # p) (x # xs) = (atomMatches a x \<and> matchesAt ((a, Star) # p) xs)"

fun searchFrom :: "(atom \<times> quantifier) list \<Rightarrow> jsstring \<Rightarrow> int \<Rightarrow> int" where
  "searchFrom p [] i = (if matchesAt p [] then i else - 1)"
| "searchFrom p (x # xs) i = (if matchesAt p (x # xs) then i else searchFrom p xs (i + 1))"

definition referenceSearch :: "jsstring \<Rightarrow> jsstring \<Rightarrow> error + int" where
  "referenceSearch s pattern =
     (case parseTerms AtStart [] pattern of
        None \<Rightarrow> Inl OutsideFragment
      | Some (Inl e) \<Rightarrow> Inl e
      | Some (Inr p) \<Rightarrow> Inr (searchFrom p s 0))"

section \<open>Reference model of \<open>Array.prototype.sort\<close> on a short array\<close>

text \<open>
  The program runs on Deno, whose engine sorts an array of fewer than 64 elements as
  follows. The result of the comparator is converted to a number, \<open>NaN\<close> counting as
  0. The longest run at the start of the array is found: ascending (each element not
  less than the one before it), or strictly descending and then reversed. Every
  further element is inserted into the run at the place a binary search finds for
  it. An array of fewer than two elements is left as it is. An array of 64 elements
  or more the engine sorts as several such runs, which it then merges; the merging is
  not modelled. Every array sorted in the worked examples has fewer than 64 elements.
\<close>

definition compareNumber :: "('a \<Rightarrow> 'a \<Rightarrow> timevalue) \<Rightarrow> 'a \<Rightarrow> 'a \<Rightarrow> int" where
  "compareNumber comparefn a b = (case comparefn a b of NaN \<Rightarrow> 0 | Ms v \<Rightarrow> v)"

text \<open>The number of elements after the first two that continue the run.\<close>

fun extendRun :: "('a \<Rightarrow> 'a \<Rightarrow> timevalue) \<Rightarrow> bool \<Rightarrow> 'a \<Rightarrow> 'a list \<Rightarrow> nat" where
  "extendRun comparefn isDescending previousElement [] = 0"
| "extendRun comparefn isDescending previousElement (currentElement # rest) =
     (let order = compareNumber comparefn currentElement previousElement
      in if (if isDescending then order \<ge> 0 else order < 0) then 0
         else Suc (extendRun comparefn isDescending currentElement rest))"

text \<open>The array with its first run made ascending, and the length of that run.\<close>

fun countAndMakeRun :: "('a \<Rightarrow> 'a \<Rightarrow> timevalue) \<Rightarrow> 'a list \<Rightarrow> 'a list \<times> nat" where
  "countAndMakeRun comparefn [] = ([], 0)"
| "countAndMakeRun comparefn [x] = ([x], 1)"
| "countAndMakeRun comparefn (elementHigh # elementLow # rest) =
     (let isDescending = (compareNumber comparefn elementLow elementHigh < 0);
          runLength = 2 + extendRun comparefn isDescending elementLow rest;
          workArray = elementHigh # elementLow # rest
      in (if isDescending then rev (take runLength workArray) @ drop runLength workArray
          else workArray,
          runLength))"

function findInsertionPoint ::
  "('a \<Rightarrow> 'a \<Rightarrow> timevalue) \<Rightarrow> 'a \<Rightarrow> 'a list \<Rightarrow> nat \<Rightarrow> nat \<Rightarrow> nat" where
  "findInsertionPoint comparefn pivot workArray left right =
     (if left < right then
        (let mid = left + (right - left) div 2
         in if compareNumber comparefn pivot (workArray ! mid) < 0
            then findInsertionPoint comparefn pivot workArray left mid
            else findInsertionPoint comparefn pivot workArray (mid + 1) right)
      else left)"
  by pat_completeness auto
termination
  by (relation "measure (\<lambda>(c, p, w, l, r). r - l)") auto

fun binaryInsertionSort :: "('a \<Rightarrow> 'a \<Rightarrow> timevalue) \<Rightarrow> 'a list \<Rightarrow> 'a list \<Rightarrow> 'a list" where
  "binaryInsertionSort comparefn run [] = run"
| "binaryInsertionSort comparefn run (pivot # rest) =
     (let left = findInsertionPoint comparefn pivot run 0 (length run)
      in binaryInsertionSort comparefn (take left run @ pivot # drop left run) rest)"

definition shortArraySort :: "('a \<Rightarrow> 'a \<Rightarrow> timevalue) \<Rightarrow> 'a list \<Rightarrow> 'a list" where
  "shortArraySort comparefn xs =
     (if length xs < 2 then xs
      else (case countAndMakeRun comparefn xs of
              (workArray, runLength) \<Rightarrow>
                binaryInsertionSort comparefn (take runLength workArray) (drop runLength workArray)))"

section \<open>A platform for the worked examples\<close>

text \<open>
  \<open>search\<close> and \<open>sort\<close> as in the two reference models, and a converter and an
  entity decoder that hand plain text through unchanged.
\<close>

definition plainText :: "FeedItem platform" where
  "plainText = \<lparr> htmlToMarkdown = (\<lambda>body. Inr (case body of None \<Rightarrow> [] | Some v \<Rightarrow> v)),
                 stringSearch = referenceSearch,
                 unescape = (\<lambda>v. v),
                 arraySort = shortArraySort \<rparr>"

section \<open>Auxiliary definitions for the proofs\<close>

text \<open>The marker line for an identifier that is already normalized.\<close>

definition marker :: "jsstring \<Rightarrow> jsstring" where
  "marker nid = GUID_OPEN @ nid @ GUID_CLOSE"

text \<open>
  The first match of \<open>GUID_PATTERN\<close> by recursion over the text; \<open>bol\<close> says whether the
  current position is the start of a line.
\<close>

fun firstFrom :: "bool \<Rightarrow> jsstring \<Rightarrow> jsstring option" where
  "firstFrom bol [] = None"
| "firstFrom bol (c # cs) =
     (case (if bol then matchHere (c # cs) else None) of
        Some (g, n) \<Rightarrow> Some g
      | None \<Rightarrow> firstFrom (isLineTerminator c) cs)"

text \<open>The identifier a listed record contributes to the seen-set, if any.\<close>

definition decodedGUID :: "itemListEntry \<Rightarrow> jsstring option" where
  "decodedGUID entry =
     (case fetched entry of
        None \<Rightarrow> None
      | Some item \<Rightarrow> (case itemType item of Post t body \<Rightarrow> findGUID body | _ \<Rightarrow> None))"

text \<open>The time value of an item is a valid date.\<close>

definition validDate :: "FeedItem \<Rightarrow> bool" where
  "validDate i = (timestampMsUTC i \<noteq> NaN)"


text \<open>
  Running the action of every feed once, in the order of the configuration: each
  feed with its result, and the final state.
\<close>

fun everyFeedOnce ::
  "(Feed \<Rightarrow> 'w \<Rightarrow> error option \<times> 'w) \<Rightarrow> Feed list \<Rightarrow> 'w \<Rightarrow> (Feed \<times> error option) list \<times> 'w" where
  "everyFeedOnce sync [] w = ([], w)"
| "everyFeedOnce sync (f # fs) w =
     (case sync f w of
        (r, w') \<Rightarrow> (case everyFeedOnce sync fs w' of (rs, w'') \<Rightarrow> ((f, r) # rs, w'')))"

text \<open>
  A wrapper that runs the action it is handed once and fails exactly when the action
  fails.
\<close>

definition transparent ::
  "(jsstring \<Rightarrow> ('w \<Rightarrow> error option \<times> 'w) \<Rightarrow> 'w \<Rightarrow> error option \<times> 'w) \<Rightarrow> bool" where
  "transparent errorContext =
     (\<forall>m act w. snd (errorContext m act w) = snd (act w)
        \<and> ((fst (errorContext m act w) = None) = (fst (act w) = None)))"

text \<open>The milliseconds of a valid time value.\<close>

definition msOf :: "FeedItem \<Rightarrow> int" where
  "msOf i = (case timestampMsUTC i of Ms t \<Rightarrow> t | NaN \<Rightarrow> 0)"

text \<open>
  The scan window in the words of the specification: a record is past the window when
  its timestamp is strictly older than the oldest pending timestamp minus one week
  (604800000 ms); the window is the listing up to the first such record.
\<close>

definition olderThanWindow :: "timevalue \<Rightarrow> itemListEntry \<Rightarrow> bool" where
  "olderThanWindow oldestPending entry =
     (case oldestPending of NaN \<Rightarrow> False | Ms t \<Rightarrow> entryTimestampMsUtc entry < t - 604800000)"

definition scanWindow :: "itemListEntry list \<Rightarrow> timevalue \<Rightarrow> itemListEntry list" where
  "scanWindow listing oldestPending = takeWhile (\<lambda>e. \<not> olderThanWindow oldestPending e) listing"

text \<open>
  What the language requires of \<open>Array.prototype.sort\<close> where the comparator is a
  consistent one, which \<open>sortByDate\<close> is on items with valid dates: the result is a
  rearrangement of the array, in ascending order of the comparator.
\<close>

definition sortsAsSpecified :: "FeedItem platform \<Rightarrow> bool" where
  "sortsAsSpecified P =
     (\<forall>xs. (\<forall>x\<in>set xs. validDate x) \<longrightarrow>
        mset (arraySort P sortByDate xs) = mset xs
        \<and> sorted (map msOf (arraySort P sortByDate xs)))"

text \<open>The normalized entries of a run, in feed order.\<close>

definition normalized :: "'i platform \<Rightarrow> FeedEntry list \<Rightarrow> FeedItem list" where
  "normalized P entries =
     (case collectItems P (take MAX_FEED_ITEMS entries) of
        Inl e \<Rightarrow> []
      | Inr items \<Rightarrow> items)"

text \<open>The normalized entries of a run, sorted: the pending items before deduplication.\<close>

definition pending :: "FeedItem platform \<Rightarrow> FeedEntry list \<Rightarrow> FeedItem list" where
  "pending P entries =
     (case collectItems P (take MAX_FEED_ITEMS entries) of
        Inl e \<Rightarrow> []
      | Inr items \<Rightarrow> arraySort P sortByDate items)"

text \<open>Entries and a client for the worked examples.\<close>

definition plainEntry :: "string \<Rightarrow> int \<Rightarrow> string \<Rightarrow> FeedEntry" where
  "plainEntry ident t text =
     \<lparr> entryId = js ident, entryPublished = Some (Ms t), dcModified = None,
       content = Some \<lparr> fvalue = Some (js text), ftype = None \<rparr>, description = None,
       links = [], entryTitle = None \<rparr>"

definition acceptingClient :: "itemListEntry list \<Rightarrow> ledgerClient" where
  "acceptingClient listing = \<lparr> userItems = listing, putItem = (\<lambda>r. None) \<rparr>"

text \<open>
  The item that \<open>plainEntry\<close> is normalized to on the \<open>plainText\<close> platform, and the
  listing entry of the record published for an item.
\<close>

definition plainItem :: "string \<Rightarrow> int \<Rightarrow> string \<Rightarrow> FeedItem" where
  "plainItem ident t text =
     \<lparr> guid = js ident, title = None,
       markdown = js text @ [0x0A, 0x0A] @ marker (normalizeGUID (Some (js ident))),
       published = Ms t, timestampMsUTC = Ms t \<rparr>"

definition listed :: "FeedItem \<Rightarrow> itemListEntry" where
  "listed i = \<lparr> entryTimestampMsUtc = msOf i,
               fetched = Some \<lparr> timestampMsUtc = msOf i, itemType = Post (title i) (markdown i) \<rparr> \<rparr>"

text \<open>
  A feed of two entries, newest first; a feed whose one entry has \<open>>\<close> in its
  identifier; two feeds of a configuration and a world in which fetching the first
  one fails; a wrapper that hands the action's result through.
\<close>

definition exampleFeed :: "FeedEntry list" where
  "exampleFeed = [plainEntry ''b'' 1700000100000 ''Two'', plainEntry ''a'' 1700000000000 ''One'']"

definition itemA :: FeedItem where
  "itemA = plainItem ''a'' 1700000000000 ''One''"

definition itemB :: FeedItem where
  "itemB = plainItem ''b'' 1700000100000 ''Two''"

definition quotedFeed :: "FeedEntry list" where
  "quotedFeed = [plainEntry ''a>b'' 1700000000000 ''One'']"

text \<open>The item of that entry, as the first run publishes it.\<close>

definition quotedItem :: FeedItem where
  "quotedItem = plainItem ''a>b'' 1700000000000 ''One''"



definition feedDown :: Feed where
  "feedDown = \<lparr> name = js ''Down'', rssUrl = js ''https://down.example/rss'', userId = js ''id1'' \<rparr>"

definition feedUp :: Feed where
  "feedUp = \<lparr> name = js ''Up'', rssUrl = js ''https://up.example/rss'', userId = js ''id2'' \<rparr>"

definition exampleWorld :: world where
  "exampleWorld =
     \<lparr> rssFeeds = (\<lambda>u. if u = js ''https://down.example/rss''
                         then Inl (External ''fetch failed'') else Inr exampleFeed),
       ledgers = (\<lambda>u. []),
       answers = (\<lambda>r. None) \<rparr>"

definition rethrow :: "jsstring \<Rightarrow> ('w \<Rightarrow> error option \<times> 'w) \<Rightarrow> 'w \<Rightarrow> error option \<times> 'w" where
  "rethrow m act w = act w"

section \<open>Properties of the marker codec\<close>

declare matchAllFrom.simps [simp del]

lemma GUID_OPEN_code: "GUID_OPEN = [0x3C, 0x21, 0x2D, 0x2D, 0x20, 0x47, 0x55, 0x49, 0x44, 0x3A, 0x20, 0x22]"
  by (simp add: GUID_OPEN_def js_def)

lemma GUID_CLOSE_code: "GUID_CLOSE = [0x22, 0x20, 0x2D, 0x2D, 0x3E]"
  by (simp add: GUID_CLOSE_def js_def)

lemma prefix_stops_before:
  assumes "prefix p (u @ c # t)" and "c \<notin> set p"
  shows "prefix p u"
proof (rule ccontr)
  assume n: "\<not> prefix p u"
  from assms(1) have "prefix p u \<or> prefix u p" 
    by (metis prefix_append prefix_same_cases prefix_order.order_refl prefixI)
  with n have "prefix u p" by blast
  then obtain q where q: "p = u @ q" by (auto simp: prefix_def)
  with n have "q \<noteq> []" by auto
  with assms(1) q have "hd q = c" by (cases q) auto
  with \<open>q \<noteq> []\<close> q assms(2) show False by (cases q) auto
qed

lemma giveBack_short:
  "k < length (takeWhile guidClass r) \<Longrightarrow> giveBack k r = None"
proof (induction k)
  case 0
  show ?case by simp
next
  case (Suc k)
  let ?t = "takeWhile guidClass r"
  have lt: "Suc k < length r" using Suc.prems length_takeWhile_le [of guidClass r] by (meson le_trans not_le)
  have "?t ! Suc k \<in> set ?t" using Suc.prems by simp
  then have "guidClass (?t ! Suc k)" by (meson set_takeWhileD)
  moreover have "?t ! Suc k = r ! Suc k" using Suc.prems by (simp add: takeWhile_nth)
  ultimately have c: "guidClass (r ! Suc k)" by simp
  have "drop (Suc k) r = r ! Suc k # drop (Suc (Suc k)) r"
    using lt by (simp add: Cons_nth_drop_Suc)
  with c have "\<not> prefix GUID_CLOSE (drop (Suc k) r)"
    by (auto simp: GUID_CLOSE_code guidClass_def)
  then show ?case using Suc by simp
qed

lemma giveBack_run:
  "giveBack (length (takeWhile guidClass r)) r =
     (if takeWhile guidClass r \<noteq> [] \<and> prefix GUID_CLOSE (dropWhile guidClass r)
      then Some (takeWhile guidClass r) else None)"
proof (cases "takeWhile guidClass r")
  case Nil
  then show ?thesis by simp
next
  case (Cons a as)
  define k where "k = length as"
  have len: "length (takeWhile guidClass r) = Suc k" by (simp add: Cons k_def)
  have d: "drop (Suc k) r = dropWhile guidClass r"
    using len dropWhile_eq_drop [of guidClass r] by simp
  have t: "take (Suc k) r = takeWhile guidClass r"
    using len takeWhile_eq_take [of guidClass r] by simp
  have n: "giveBack k r = None" by (rule giveBack_short) (simp add: len)
  have "giveBack (Suc k) r =
      (if prefix GUID_CLOSE (dropWhile guidClass r) then Some (takeWhile guidClass r) else None)"
    by (simp only: giveBack.simps d t n)
  moreover have "takeWhile guidClass r \<noteq> []" by (simp add: Cons)
  ultimately show ?thesis by (simp only: len if_True simp_thms)
qed

lemma matchHere_char:
  "matchHere s =
     (if prefix GUID_OPEN s \<and> takeWhile guidClass (drop (length GUID_OPEN) s) \<noteq> []
         \<and> prefix GUID_CLOSE (dropWhile guidClass (drop (length GUID_OPEN) s))
      then Some (takeWhile guidClass (drop (length GUID_OPEN) s),
                 length GUID_OPEN + length (takeWhile guidClass (drop (length GUID_OPEN) s)) + length GUID_CLOSE)
      else None)"
  by (simp add: matchHere_def giveBack_run Let_def)


lemma matchHere_Nil: "matchHere [] = None"
  by (simp add: matchHere_def GUID_OPEN_code)

lemma firstFrom_unfold:
  "xs = c # cs \<Longrightarrow> firstFrom bol xs =
     (case (if bol then matchHere xs else None) of
        Some (g, n) \<Rightarrow> Some g
      | None \<Rightarrow> firstFrom (isLineTerminator c) cs)"
  by simp

lemma matchAllFrom_first:
  "i \<le> length s \<Longrightarrow>
   (case matchAllFrom s i of [] \<Rightarrow> None | g # _ \<Rightarrow> Some g) = firstFrom (atLineStart s i) (drop i s)"
proof (induction s i rule: matchAllFrom.induct)
  case (1 s i)
  show ?case
  proof (cases "i = length s")
    case True
    have "matchAllFrom s (Suc (length s)) = []" by (simp add: matchAllFrom.simps)
    then have "matchAllFrom s (length s) = []"
      by (subst matchAllFrom.simps) (simp add: matchHere_Nil)
    then show ?thesis using True by simp
  next
    case False
    with "1.prems" have lt: "i < length s" by simp
    have dr: "drop i s = s ! i # drop (Suc i) s" using lt by (simp add: Cons_nth_drop_Suc)
    have al: "atLineStart s (Suc i) = isLineTerminator (s ! i)" by (simp add: atLineStart_def)
    show ?thesis
    proof (cases "if atLineStart s i then matchHere (drop i s) else None")
      case None
      have "matchAllFrom s i = matchAllFrom s (Suc i)"
        using lt None by (subst matchAllFrom.simps) simp
      moreover have "(case matchAllFrom s (Suc i) of [] \<Rightarrow> None | g # _ \<Rightarrow> Some g)
          = firstFrom (atLineStart s (Suc i)) (drop (Suc i) s)"
        using "1.IH"(1) [OF _ None] lt by simp
      moreover have "firstFrom (atLineStart s i) (drop i s) = firstFrom (isLineTerminator (s ! i)) (drop (Suc i) s)"
        using None by (simp only: firstFrom_unfold [OF dr] option.case)
      ultimately show ?thesis by (simp add: al)
    next
      case (Some a)
      obtain g n where a: "a = (g, n)" by (cases a)
      have "matchAllFrom s i = g # matchAllFrom s (if n = 0 then Suc i else i + n)"
        using lt Some a by (subst matchAllFrom.simps) simp
      moreover have "firstFrom (atLineStart s i) (drop i s) = Some g"
        using Some a by (simp only: firstFrom_unfold [OF dr] option.case prod.case)
      ultimately show ?thesis by simp
    qed
  qed
qed

lemma findGUID_firstFrom: "findGUID s = firstFrom True s"
proof -
  have "(case matchAllFrom s 0 of [] \<Rightarrow> None | g # _ \<Rightarrow> Some g) = firstFrom True s"
    using matchAllFrom_first [of 0 s] by (simp add: atLineStart_def)
  then show ?thesis by (cases "matchAllFrom s 0") (simp_all add: findGUID_def)
qed


lemma length_GUID_OPEN: "length GUID_OPEN = 12"
  by (simp add: GUID_OPEN_code)

lemma matchHereI:
  assumes "prefix GUID_OPEN s" and "drop (length GUID_OPEN) s = r"
    and "takeWhile guidClass r = g" and "g \<noteq> []"
    and "prefix GUID_CLOSE (dropWhile guidClass r)"
  shows "matchHere s = Some (g, length GUID_OPEN + length g + length GUID_CLOSE)"
  by (subst matchHere_char) (simp only: assms if_True simp_thms)

lemma prefix_GUID_CLOSE_ne: "prefix GUID_CLOSE d \<Longrightarrow> d \<noteq> []"
  by (auto simp: GUID_CLOSE_code)

lemma matchHere_extend:
  assumes "matchHere u = Some x"
  shows "matchHere (u @ w) = Some x"
proof -
  let ?r = "drop (length GUID_OPEN) u"
  from assms have p: "prefix GUID_OPEN u" and ne: "takeWhile guidClass ?r \<noteq> []"
    and c: "prefix GUID_CLOSE (dropWhile guidClass ?r)"
    and x: "x = (takeWhile guidClass ?r, length GUID_OPEN + length (takeWhile guidClass ?r) + length GUID_CLOSE)"
    by (auto simp: matchHere_char split: if_splits)
  from p have len: "length GUID_OPEN \<le> length u" by (rule prefix_length_le)
  then have dr: "drop (length GUID_OPEN) (u @ w) = ?r @ w" by simp
  from c have "dropWhile guidClass ?r \<noteq> []" by (rule prefix_GUID_CLOSE_ne)
  then obtain y where y: "y \<in> set ?r" "\<not> guidClass y" by (auto simp: dropWhile_eq_Nil_conv)
  have tw: "takeWhile guidClass (?r @ w) = takeWhile guidClass ?r"
    using y by (rule takeWhile_append1)
  have dw: "dropWhile guidClass (?r @ w) = dropWhile guidClass ?r @ w"
    using y by (rule dropWhile_append1)
  have p': "prefix GUID_OPEN (u @ w)" using p by (rule prefix_prefix)
  have c': "prefix GUID_CLOSE (dropWhile guidClass (?r @ w))"
    unfolding dw using c by (rule prefix_prefix)
  show ?thesis unfolding x by (rule matchHereI [OF p' dr tw ne c'])
qed

lemma dropWhile_marker_tail:
  "dropWhile guidClass (0x0A # 0x0A # marker nid) = 0x22 # nid @ GUID_CLOSE"
  by (simp add: marker_def GUID_OPEN_code guidClass_def)

lemma no_close_at_open:
  assumes "\<forall>c\<in>set nid. guidClass c"
  shows "\<not> prefix GUID_CLOSE (0x22 # nid @ GUID_CLOSE)"
proof
  assume "prefix GUID_CLOSE (0x22 # nid @ GUID_CLOSE)"
  then have "prefix [0x20, 0x2D, 0x2D, 0x3E] (nid @ 0x22 # [0x20, 0x2D, 0x2D, 0x3E :: jschar])"
    by (simp add: GUID_CLOSE_code)
  then have "prefix [0x20, 0x2D, 0x2D, 0x3E :: jschar] nid"
    by (rule prefix_stops_before) simp
  then have "set [0x20, 0x2D, 0x2D, 0x3E :: jschar] \<subseteq> set nid" by (rule set_mono_prefix)
  then have "(0x3E :: jschar) \<in> set nid" by simp
  with assms show False by (auto simp: guidClass_def)
qed

lemma matchHere_crossing:
  assumes cls: "\<forall>c\<in>set nid. guidClass c"
    and m: "matchHere (u @ 0x0A # 0x0A # marker nid) = Some x"
  shows "matchHere u = Some x"
proof -
  define T where "T = 0x0A # marker nid"
  let ?r = "drop (length GUID_OPEN) u"
  let ?rT = "drop (length GUID_OPEN) (u @ 0x0A # T)"
  from m have m': "matchHere (u @ 0x0A # T) = Some x" by (simp add: T_def)
  have "matchHere (u @ 0x0A # T) \<noteq> None" using m' by simp
  then have p: "prefix GUID_OPEN (u @ 0x0A # T)" and ne: "takeWhile guidClass ?rT \<noteq> []"
    and c: "prefix GUID_CLOSE (dropWhile guidClass ?rT)"
    by (simp_all add: matchHere_char [of "u @ 0x0A # T"] split: if_splits)
  have x: "x = (takeWhile guidClass ?rT, length GUID_OPEN + length (takeWhile guidClass ?rT) + length GUID_CLOSE)"
    using m' p ne c by (simp add: matchHere_char [of "u @ 0x0A # T"])
  have pu: "prefix GUID_OPEN u"
    using p by (rule prefix_stops_before) (simp add: GUID_OPEN_code)
  then have "length GUID_OPEN \<le> length u" by (rule prefix_length_le)
  then have dr: "?rT = ?r @ 0x0A # T" by simp
  show ?thesis
  proof (cases "\<forall>y\<in>set ?r. guidClass y")
    case True
    then have "dropWhile guidClass (?r @ 0x0A # T) = dropWhile guidClass (0x0A # T)"
      by (simp add: dropWhile_append2)
    also have "\<dots> = 0x22 # nid @ GUID_CLOSE" unfolding T_def by (rule dropWhile_marker_tail)
    finally have "prefix GUID_CLOSE (0x22 # nid @ GUID_CLOSE)" using c by (simp only: dr)
    with no_close_at_open [OF cls] show ?thesis by simp
  next
    case False
    then obtain y where y: "y \<in> set ?r" "\<not> guidClass y" by blast
    have tw: "takeWhile guidClass (?r @ 0x0A # T) = takeWhile guidClass ?r"
      using y by (rule takeWhile_append1)
    have dw: "dropWhile guidClass (?r @ 0x0A # T) = dropWhile guidClass ?r @ 0x0A # T"
      using y by (rule dropWhile_append1)
    from c have "prefix GUID_CLOSE (dropWhile guidClass ?r @ 0x0A # T)"
      by (simp only: dr dw)
    then have cu: "prefix GUID_CLOSE (dropWhile guidClass ?r)"
      by (rule prefix_stops_before) (simp add: GUID_CLOSE_code)
    have ne': "takeWhile guidClass ?r \<noteq> []" using ne unfolding dr tw .
    have "matchHere u = Some (takeWhile guidClass ?r,
        length GUID_OPEN + length (takeWhile guidClass ?r) + length GUID_CLOSE)"
      by (rule matchHereI [OF pu refl refl ne' cu])
    then show ?thesis using x by (simp only: dr tw)
  qed
qed

lemma matchHere_marker:
  assumes cls: "\<forall>c\<in>set nid. guidClass c" and ne: "nid \<noteq> []"
  shows "matchHere (marker nid @ w) = Some (nid, length GUID_OPEN + length nid + length GUID_CLOSE)"
proof -
  have dr: "drop (length GUID_OPEN) (marker nid @ w) = nid @ (GUID_CLOSE @ w)" by (simp add: marker_def)
  have c: "GUID_CLOSE @ w = 0x22 # ([0x20, 0x2D, 0x2D, 0x3E] @ w)" by (simp add: GUID_CLOSE_code)
  have tw: "takeWhile guidClass (nid @ (GUID_CLOSE @ w)) = nid"
    unfolding c using cls by (simp add: takeWhile_tail guidClass_def)
  have dw: "dropWhile guidClass (nid @ (GUID_CLOSE @ w)) = GUID_CLOSE @ w"
    unfolding c using cls by (simp add: dropWhile_append3 guidClass_def)
  have p: "prefix GUID_OPEN (marker nid @ w)" by (simp add: marker_def)
  have q: "prefix GUID_CLOSE (dropWhile guidClass (nid @ (GUID_CLOSE @ w)))"
    unfolding dw by (rule prefixI) (rule refl)
  show ?thesis by (rule matchHereI [OF p dr tw ne q])
qed

lemma matchHere_not_open: "c \<noteq> 0x3C \<Longrightarrow> matchHere (c # cs) = None"
  by (simp add: matchHere_def GUID_OPEN_code)

lemma firstFrom_marker:
  assumes cls: "\<forall>c\<in>set nid. guidClass c" and ne: "nid \<noteq> []"
  shows "firstFrom True (marker nid) = Some nid"
proof -
  obtain c cs where m: "marker nid = c # cs" by (cases "marker nid") (auto simp: marker_def GUID_OPEN_code)
  have "matchHere (marker nid) = Some (nid, length GUID_OPEN + length nid + length GUID_CLOSE)"
    using matchHere_marker [OF cls ne, of "[]"] by simp
  then show ?thesis by (simp add: firstFrom_unfold [OF m])
qed

lemma firstFrom_appended:
  assumes cls: "\<forall>c\<in>set nid. guidClass c" and ne: "nid \<noteq> []"
  shows "firstFrom bol u = None \<Longrightarrow> firstFrom bol (u @ 0x0A # 0x0A # marker nid) = Some nid"
proof (induction u arbitrary: bol)
  case Nil
  show ?case
    by (simp add: matchHere_not_open isLineTerminator_def firstFrom_marker [OF cls ne])
next
  case (Cons c cs)
  from Cons.prems have a: "(if bol then matchHere (c # cs) else None) = None"
    and b: "firstFrom (isLineTerminator c) cs = None"
    by (auto split: option.splits)
  have "(if bol then matchHere ((c # cs) @ 0x0A # 0x0A # marker nid) else None) = None"
  proof (cases bol)
    case True
    with a have "matchHere (c # cs) = None" by simp
    with matchHere_crossing [OF cls, of "c # cs"]
    have "matchHere ((c # cs) @ 0x0A # 0x0A # marker nid) = None"
      by (cases "matchHere ((c # cs) @ 0x0A # 0x0A # marker nid)") auto
    then show ?thesis by (simp only: if_True True)
  next
    case False
    then show ?thesis by simp
  qed
  then show ?case using Cons.IH [OF b] by (simp only: append_Cons firstFrom.simps option.case)
qed

lemma firstFrom_prefix_None:
  "firstFrom bol (u @ w) = None \<Longrightarrow> firstFrom bol u = None"
proof (induction u arbitrary: bol)
  case Nil
  show ?case by simp
next
  case (Cons c cs)
  from Cons.prems have a: "(if bol then matchHere (c # cs @ w) else None) = None"
    and b: "firstFrom (isLineTerminator c) (cs @ w) = None"
    by (auto split: option.splits)
  have "(if bol then matchHere (c # cs) else None) = None"
    using a matchHere_extend [of "c # cs" _ w] by (cases "matchHere (c # cs)") (auto split: if_splits)
  then show ?case using Cons.IH [OF b] by simp
qed

lemma trimEnd_prefix: "\<exists>w. s = trimEnd s @ w"
proof -
  let ?P = "\<lambda>c. isWhiteSpace c \<or> isLineTerminator c"
  have "rev s = takeWhile ?P (rev s) @ dropWhile ?P (rev s)" by simp
  then have "s = rev (dropWhile ?P (rev s)) @ rev (takeWhile ?P (rev s))"
    by (metis rev_append rev_rev_ident)
  then show ?thesis unfolding trimEnd_def by blast
qed

lemma firstFrom_in_class:
  "firstFrom bol s = Some g \<Longrightarrow> g \<noteq> [] \<and> (\<forall>c\<in>set g. guidClass c)"
proof (induction s arbitrary: bol)
  case Nil
  then show ?case by simp
next
  case (Cons c cs)
  show ?case
  proof (cases "if bol then matchHere (c # cs) else None")
    case None
    with Cons.prems have "firstFrom (isLineTerminator c) cs = Some g" by simp
    then show ?thesis by (rule Cons.IH)
  next
    case (Some x)
    then have m: "matchHere (c # cs) = Some x" by (simp split: if_splits)
    from Some Cons.prems have g: "g = fst x" by (cases x) simp
    from m have "fst x = takeWhile guidClass (drop (length GUID_OPEN) (c # cs))"
      and "fst x \<noteq> []"
      by (auto simp: matchHere_char [of "c # cs"] split: if_splits)
    then show ?thesis using g by (auto dest: set_takeWhileD)
  qed
qed

text \<open>
  C2, as amended. For a body in which \<open>findGUID\<close> finds no marker, and an identifier
  that keeps at least one code unit once its double quotes and \<open>>\<close> are removed,
  decoding the encoded body gives the identifier with those characters removed.
\<close>

theorem marker_roundtrip:
  assumes "findGUID body = None"
    and "filter (\<lambda>c. c \<noteq> 0x22 \<and> c \<noteq> 0x3E) ident \<noteq> []"
  shows "findGUID (addGUID body ident) = Some (filter (\<lambda>c. c \<noteq> 0x22 \<and> c \<noteq> 0x3E) ident)"
proof -
  let ?nid = "filter (\<lambda>c. c \<noteq> 0x22 \<and> c \<noteq> 0x3E) ident"
  from assms(2) have g: "ident \<noteq> []" by auto
  then have n: "normalizeGUID (Some ident) = ?nid" by (simp add: normalizeGUID_def)
  have cls: "\<forall>c\<in>set ?nid. guidClass c" by (simp add: guidClass_def)
  obtain w where w: "body = trimEnd body @ w" using trimEnd_prefix by blast
  from assms(1) have "firstFrom True (trimEnd body @ w) = None"
    using w by (simp add: findGUID_firstFrom)
  then have "firstFrom True (trimEnd body) = None" by (rule firstFrom_prefix_None)
  then have "firstFrom True (trimEnd body @ 0x0A # 0x0A # marker ?nid) = Some ?nid"
    by (rule firstFrom_appended [OF cls assms(2)])
  then show ?thesis by (simp add: findGUID_firstFrom addGUID_def n marker_def)
qed


text \<open>
  The round trip at a body of plain text and the identifier \<open>a>b\<close>: the decoded
  identifier is \<open>ab\<close>.
\<close>

theorem marker_roundtrip_witness:
  "findGUID (js ''Hello'') = None
   \<and> filter (\<lambda>c. c \<noteq> 0x22 \<and> c \<noteq> 0x3E) (js ''a>b'') \<noteq> []
   \<and> findGUID (addGUID (js ''Hello'') (js ''a>b'')) = Some (js ''ab'')"
proof -
  have a: "findGUID (js ''Hello'') = None" by code_simp
  have b: "filter (\<lambda>c. c \<noteq> 0x22 \<and> c \<noteq> 0x3E) (js ''a>b'') \<noteq> []" by code_simp
  have c: "filter (\<lambda>c. c \<noteq> 0x22 \<and> c \<noteq> 0x3E) (js ''a>b'') = js ''ab''" by code_simp
  show ?thesis using a b marker_roundtrip [OF a b] by (simp only: c simp_thms)
qed

text \<open>
  Without the two conditions the round trip fails in three ways. An identifier made of double quotes only
  is encoded as an empty marker, which the pattern does not match. The empty
  identifier is encoded as \<open>undefined\<close>. A body that already holds a marker line
  decodes to that marker, not to the one appended.
\<close>

theorem marker_roundtrip_counterexample:
  "findGUID (addGUID (js ''Hello'') [0x22]) = None
   \<and> findGUID (addGUID (js ''Hello'') [0x22]) \<noteq> Some (filter (\<lambda>c. c \<noteq> 0x22 \<and> c \<noteq> 0x3E) [0x22])
   \<and> findGUID (addGUID (js ''Hello'') []) = Some (js ''undefined'')
   \<and> findGUID (addGUID (js ''Hello'') []) \<noteq> Some (filter (\<lambda>c. c \<noteq> 0x22 \<and> c \<noteq> 0x3E) [])
   \<and> findGUID (addGUID (marker (js ''x'')) (js ''y'')) = Some (js ''x'')
   \<and> findGUID (addGUID (marker (js ''x'')) (js ''y'')) \<noteq> Some (filter (\<lambda>c. c \<noteq> 0x22 \<and> c \<noteq> 0x3E) (js ''y''))"
  by code_simp

text \<open>
  C10. Whatever the body, \<open>findGUID\<close> returns nothing or a non-empty identifier with
  no double quote (0x22) and no \<open>>\<close> (0x3E) in it. The marker of the empty identifier
  is not matched where it stands, whatever follows it, and a body that consists of it
  decodes to nothing.
\<close>

theorem findGUID_result:
  "(case findGUID body of
      None \<Rightarrow> True
    | Some g \<Rightarrow> g \<noteq> [] \<and> 0x22 \<notin> set g \<and> 0x3E \<notin> set g)
   \<and> matchHere (marker [] @ rest) = None
   \<and> findGUID (marker []) = None"
proof -
  have a: "case findGUID body of None \<Rightarrow> True | Some g \<Rightarrow> g \<noteq> [] \<and> 0x22 \<notin> set g \<and> 0x3E \<notin> set g"
  proof (cases "findGUID body")
    case None
    then show ?thesis by simp
  next
    case (Some g)
    then have "firstFrom True body = Some g" by (simp add: findGUID_firstFrom)
    then have "g \<noteq> [] \<and> (\<forall>c\<in>set g. guidClass c)" by (rule firstFrom_in_class)
    then show ?thesis using Some by (auto simp: guidClass_def)
  qed
  have "drop (length GUID_OPEN) (marker [] @ rest) = GUID_CLOSE @ rest"
    by (simp add: marker_def)
  moreover have "takeWhile guidClass (GUID_CLOSE @ rest) = []"
    by (simp add: GUID_CLOSE_code guidClass_def)
  ultimately have b: "matchHere (marker [] @ rest) = None"
    by (simp add: matchHere_char [of "marker [] @ rest"])
  have c: "findGUID (marker []) = None" by code_simp
  from a b c show ?thesis by blast
qed

section \<open>Properties of the history scanner\<close>

lemma older_code:
  "bigintLess (entryTimestampMsUtc e) (numMinus oldest (Ms ONE_WEEK_MS)) = olderThanWindow oldest e"
  by (cases oldest) (simp_all add: bigintLess_def numMinus_def olderThanWindow_def ONE_WEEK_MS_def)

lemma findGUID_nonempty: "findGUID b = Some g \<Longrightarrow> g \<noteq> []"
  using firstFrom_in_class [of True b g] by (simp add: findGUID_firstFrom)

lemma scanItems_step:
  assumes "\<not> bigintLess (entryTimestampMsUtc e) cutoff"
  shows "scanItems cutoff (e # es) G =
     scanItems cutoff es (case decodedGUID e of None \<Rightarrow> G | Some g \<Rightarrow> insert g G)"
  using assms
  by (auto simp: decodedGUID_def dest: findGUID_nonempty split: option.splits itemType.splits)

lemma scanItems_window:
  "scanItems (numMinus oldest (Ms ONE_WEEK_MS)) es G =
     G \<union> {g. \<exists>e\<in>set (scanWindow es oldest). decodedGUID e = Some g}"
proof (induction es arbitrary: G)
  case Nil
  show ?case by (simp add: scanWindow_def)
next
  case (Cons e es)
  show ?case
  proof (cases "olderThanWindow oldest e")
    case True
    then show ?thesis by (simp add: older_code scanWindow_def)
  next
    case False
    have w: "scanWindow (e # es) oldest = e # scanWindow es oldest"
      using False by (simp add: scanWindow_def)
    have st: "scanItems (numMinus oldest (Ms ONE_WEEK_MS)) (e # es) G =
        scanItems (numMinus oldest (Ms ONE_WEEK_MS)) es
          (case decodedGUID e of None \<Rightarrow> G | Some g \<Rightarrow> insert g G)"
      by (rule scanItems_step) (simp add: older_code False)
    show ?thesis unfolding st Cons.IH w
      by (cases "decodedGUID e") auto
  qed
qed

text \<open>
  C5. The history scanner walks the listing in the order the client yields it and
  stops at the first record whose timestamp is strictly older than the oldest pending
  timestamp minus one week. Its result is exactly the set of identifiers decoded from
  the bodies of the post records before that point; a record that is not a post, or
  whose body holds no marker, contributes nothing.
\<close>

theorem getSeenGUIDs_window:
  "getSeenGUIDs listing oldestPending =
     {g. \<exists>e\<in>set (scanWindow listing oldestPending). decodedGUID e = Some g}"
  by (simp add: getSeenGUIDs_def scanItems_window)

lemma unnormalized_guid_never_seen:
  "0x22 \<in> set g \<or> 0x3E \<in> set g \<Longrightarrow> g \<notin> getSeenGUIDs listing t"
proof
  assume a: "0x22 \<in> set g \<or> 0x3E \<in> set g" and "g \<in> getSeenGUIDs listing t"
  then obtain e where "decodedGUID e = Some g" by (auto simp: getSeenGUIDs_def scanItems_window)
  then obtain b where "findGUID b = Some g"
    by (auto simp: decodedGUID_def split: option.splits itemType.splits)
  then have "firstFrom True b = Some g" by (simp add: findGUID_firstFrom)
  then have "\<forall>c\<in>set g. guidClass c" using firstFrom_in_class by blast
  with a show False by (auto simp: guidClass_def)
qed


section \<open>Properties of the constructor\<close>

text \<open>
  C6. Constructing a \<open>FeedItem\<close> whose publish date has the time value 0 fails with
  the constructor's own error, whatever the other fields are.
\<close>

theorem constructor_epoch:
  "newFeedItem \<lparr> d_guid = g, d_title = t, d_markdown = m, d_published = Ms 0 \<rparr> = Inl EpochDate"
  by (simp add: newFeedItem_def)

text \<open>
  C9. Construction succeeds for every publish date whose time value is not exactly 0:
  a negative value and the \<open>NaN\<close> of an invalid date are accepted.
\<close>

theorem constructor_accepts:
  "d_published d \<noteq> Ms 0 \<Longrightarrow>
   newFeedItem d = Inr \<lparr> guid = d_guid d, title = d_title d, markdown = d_markdown d,
                         published = d_published d, timestampMsUTC = d_published d \<rparr>"
  by (simp add: newFeedItem_def)


theorem constructor_accepts_witness:
  "newFeedItem \<lparr> d_guid = js ''a'', d_title = None, d_markdown = js ''One'', d_published = NaN \<rparr>
     = Inr \<lparr> guid = js ''a'', title = None, markdown = js ''One'', published = NaN, timestampMsUTC = NaN \<rparr>
   \<and> newFeedItem \<lparr> d_guid = js ''a'', d_title = None, d_markdown = js ''One'', d_published = Ms (- 1) \<rparr>
     = Inr \<lparr> guid = js ''a'', title = None, markdown = js ''One'', published = Ms (- 1),
             timestampMsUTC = Ms (- 1) \<rparr>"
  using constructor_accepts [of "\<lparr> d_guid = js ''a'', d_title = None, d_markdown = js ''One'', d_published = NaN \<rparr>"]
    constructor_accepts [of "\<lparr> d_guid = js ''a'', d_title = None, d_markdown = js ''One'', d_published = Ms (- 1) \<rparr>"]
  by simp

section \<open>Properties of the reference sort\<close>

declare findInsertionPoint.simps [simp del]















section \<open>Properties of the reconciler\<close>

lemma sorted_valid:
  assumes "sortsAsSpecified P" and "\<forall>x\<in>set xs. validDate x"
  shows "mset (arraySort P sortByDate xs) = mset xs"
    and "sorted (map msOf (arraySort P sortByDate xs))"
  using assms unfolding sortsAsSpecified_def by blast+

lemma putItems_stored_prefix: "prefix (stored (putItems client xs)) xs"
  by (induction xs) (auto split: sum.splits option.splits simp: Let_def)

lemma stored_subset:
  "set (stored (syncFeed P (Inr entries) client))
     \<subseteq> {i \<in> set (pending P entries).
          guid i \<notin> getSeenGUIDs (userItems client) (timestampMsUTC (pending P entries ! 0))}"
proof (cases "collectItems P (take MAX_FEED_ITEMS entries)")
  case (Inl e)
  then show ?thesis by (simp add: syncFeed_def)
next
  case (Inr items)
  let ?sorted = "arraySort P sortByDate items"
  let ?seen = "getSeenGUIDs (userItems client) (timestampMsUTC (?sorted ! 0))"
  have p: "pending P entries = ?sorted" by (simp add: pending_def Inr)
  have "set (stored (putItems client (filter (\<lambda>i. guid i \<notin> ?seen) ?sorted)))
      \<subseteq> set (filter (\<lambda>i. guid i \<notin> ?seen) ?sorted)"
    by (rule set_mono_prefix) (rule putItems_stored_prefix)
  then show ?thesis unfolding p by (auto simp: syncFeed_def Inr Let_def)
qed

text \<open>
  What the filter does: an item whose identifier, as the feed gives it, equals an
  identifier decoded inside the scan window is not stored. A record carries the
  normalized identifier, so this covers an entry published before only where
  normalizing leaves its identifier unchanged.
\<close>

lemma raw_identifier_filtered:
  assumes "e \<in> set (scanWindow (userItems client) (timestampMsUTC (pending P entries ! 0)))"
    and "decodedGUID e = Some (guid i)"
  shows "i \<notin> set (stored (syncFeed P (Inr entries) client))"
proof
  assume "i \<in> set (stored (syncFeed P (Inr entries) client))"
  with stored_subset [of P entries client]
  have "guid i \<notin> getSeenGUIDs (userItems client) (timestampMsUTC (pending P entries ! 0))"
    by blast
  with assms show False by (auto simp: getSeenGUIDs_def scanItems_window)
qed

text \<open>
  C3. The feed holds one entry, with the identifier \<open>a>b\<close>; the ledger holds the
  record published for that entry, inside the scan window, and its body decodes to
  the entry's normalized identifier \<open>ab\<close>. The entry is not removed: the filter
  compares \<open>ab\<close> with the identifier \<open>a>b\<close>, and the run stores the entry again.
\<close>

theorem published_entry_stored_again:
  "listed quotedItem
     \<in> set (scanWindow (userItems (acceptingClient [listed quotedItem]))
               (timestampMsUTC (pending plainText quotedFeed ! 0)))
   \<and> decodedGUID (listed quotedItem) = Some (normalizeGUID (Some (guid quotedItem)))
   \<and> guid quotedItem = js ''a>b''
   \<and> normalizeGUID (Some (guid quotedItem)) = js ''ab''
   \<and> stored (syncFeed plainText (Inr quotedFeed) (acceptingClient [listed quotedItem]))
       = [quotedItem]"
  by code_simp





lemma window_store:
  assumes "\<not> olderThanWindow t \<lparr> entryTimestampMsUtc = timestampMsUtc r, fetched = Some r \<rparr>"
  shows "set (scanWindow (storeItem r L) t)
           = insert \<lparr> entryTimestampMsUtc = timestampMsUtc r, fetched = Some r \<rparr> (set (scanWindow L t))"
proof (induction L)
  case Nil
  show ?case using assms by (simp add: scanWindow_def)
next
  case (Cons e es)
  show ?case
  proof (cases "entryTimestampMsUtc e \<le> timestampMsUtc r")
    case True
    then show ?thesis using assms by (simp add: scanWindow_def)
  next
    case False
    then have "\<not> olderThanWindow t e"
      using assms by (cases t) (auto simp: olderThanWindow_def)
    then show ?thesis using False Cons.IH by (simp add: scanWindow_def insert_commute)
  qed
qed

lemma window_after:
  assumes "\<forall>r\<in>set rs. \<not> olderThanWindow t \<lparr> entryTimestampMsUtc = timestampMsUtc r, fetched = Some r \<rparr>"
  shows "set (scanWindow (ledgerAfter L rs) t)
           = set (scanWindow L t)
             \<union> (\<lambda>r. \<lparr> entryTimestampMsUtc = timestampMsUtc r, fetched = Some r \<rparr>) ` set rs"
  using assms
proof (induction rs arbitrary: L)
  case Nil
  show ?case by (simp add: ledgerAfter_def)
next
  case (Cons r rs)
  have "ledgerAfter L (r # rs) = ledgerAfter (storeItem r L) rs" by (simp add: ledgerAfter_def)
  then show ?case using Cons.IH [of "storeItem r L"] Cons.prems by (simp add: window_store)
qed

lemma putItems_complete:
  assumes "failure (putItems c xs) = None"
  shows "stored (putItems c xs) = xs
       \<and> submitted (putItems c xs)
           = map (\<lambda>i. \<lparr> timestampMsUtc = msOf i, itemType = Post (title i) (markdown i) \<rparr>) xs"
  using assms
proof (induction xs)
  case Nil
  show ?case by simp
next
  case (Cons x xs)
  then show ?case
    by (cases "timestampMsUTC x")
       (auto simp: toProtobuf_def msOf_def Let_def split: option.splits)
qed

text \<open>
  For a feed whose normalized items have valid dates and bodies that decode to the
  items' own identifiers, on an engine whose sort does what the language requires, a
  second run after a first run that ended without failure stores nothing: the
  records of the first run lie inside the scan window of the second, and what the
  first run had seen it sees again.
\<close>

lemma second_run_idempotent:
  assumes spec: "sortsAsSpecified P"
    and valid: "\<forall>i\<in>set (normalized P entries). validDate i"
    and decode: "\<forall>i\<in>set (normalized P entries). findGUID (markdown i) = Some (guid i)"
    and complete: "failure (syncFeed P (Inr entries) client) = None"
    and after: "userItems client' =
        ledgerAfter (userItems client) (submitted (syncFeed P (Inr entries) client))"
  shows "stored (syncFeed P (Inr entries) client') = []
       \<and> submitted (syncFeed P (Inr entries) client') = []"
proof (cases "collectItems P (take MAX_FEED_ITEMS entries)")
  case (Inl e)
  then show ?thesis by (simp add: syncFeed_def)
next
  case (Inr items)
  let ?S = "arraySort P sortByDate items"
  let ?t0 = "timestampMsUTC (?S ! 0)"
  let ?seen1 = "getSeenGUIDs (userItems client) ?t0"
  let ?rem1 = "filter (\<lambda>i. guid i \<notin> ?seen1) ?S"
  let ?L1 = "userItems client'"
  let ?seen2 = "getSeenGUIDs ?L1 ?t0"
  let ?rec = "\<lambda>i. \<lparr> timestampMsUtc = msOf i, itemType = Post (title i) (markdown i) \<rparr>"
  have n: "normalized P entries = items" by (simp add: normalized_def Inr)
  from valid have v: "\<forall>x\<in>set items. validDate x" by (simp add: n)
  have ms: "mset ?S = mset items" using spec v by (rule sorted_valid)
  then have st: "set ?S = set items" by (rule mset_eq_setD)
  have srt: "sorted (map msOf ?S)" using spec v by (rule sorted_valid)
  show ?thesis
  proof (cases "items = []")
    case True
    then show ?thesis by (simp add: syncFeed_def Inr)
  next
    case False
    then have Sne: "?S \<noteq> []" using ms by auto
    have r1: "syncFeed P (Inr entries) client =
        (if ?rem1 = [] then \<lparr> failure = None, stored = [], submitted = [] \<rparr>
         else putItems client ?rem1)"
      using False by (simp add: syncFeed_def Inr Let_def)
    have sub: "submitted (syncFeed P (Inr entries) client) = map ?rec ?rem1"
    proof (cases "?rem1 = []")
      case True
      then show ?thesis unfolding r1 by simp
    next
      case False
      with complete have "failure (putItems client ?rem1) = None" unfolding r1 by simp
      then show ?thesis using False putItems_complete [of client ?rem1] unfolding r1 by simp
    qed
    have low: "msOf (?S ! 0) \<le> msOf i" if "i \<in> set ?S" for i
    proof -
      from that obtain k where k: "k < length ?S" "?S ! k = i" by (auto simp: in_set_conv_nth)
      from srt k(1) have "map msOf ?S ! 0 \<le> map msOf ?S ! k"
        by (simp add: sorted_iff_nth_mono del: nth_map)
      then show ?thesis using k Sne by simp
    qed
    have t0: "?t0 = Ms (msOf (?S ! 0))"
    proof -
      from Sne have "?S ! 0 \<in> set ?S" by simp
      with v st have "validDate (?S ! 0)" by simp
      then show ?thesis by (cases "?t0") (simp_all add: validDate_def msOf_def)
    qed
    have inwin: "\<forall>r\<in>set (map ?rec ?rem1).
        \<not> olderThanWindow ?t0 \<lparr> entryTimestampMsUtc = timestampMsUtc r, fetched = Some r \<rparr>"
    proof
      fix r assume "r \<in> set (map ?rec ?rem1)"
      then obtain i where i: "i \<in> set ?S" "r = ?rec i" by auto
      from low [OF i(1)] show "\<not> olderThanWindow ?t0 \<lparr> entryTimestampMsUtc = timestampMsUtc r, fetched = Some r \<rparr>"
        unfolding t0 by (simp add: olderThanWindow_def i(2))
    qed
    have win: "set (scanWindow ?L1 ?t0) = set (scanWindow (userItems client) ?t0)
        \<union> (\<lambda>r. \<lparr> entryTimestampMsUtc = timestampMsUtc r, fetched = Some r \<rparr>) ` set (map ?rec ?rem1)"
      unfolding after sub by (rule window_after [OF inwin])
    have all_seen: "guid i \<in> ?seen2" if "i \<in> set ?S" for i
    proof (cases "guid i \<in> ?seen1")
      case True
      then obtain e where "e \<in> set (scanWindow (userItems client) ?t0)" "decodedGUID e = Some (guid i)"
        by (auto simp: getSeenGUIDs_def scanItems_window)
      then have "e \<in> set (scanWindow ?L1 ?t0)" "decodedGUID e = Some (guid i)" using win by auto
      then show ?thesis by (auto simp: getSeenGUIDs_def scanItems_window)
    next
      case False
      with that have "i \<in> set ?rem1" by simp
      then have "\<lparr> entryTimestampMsUtc = msOf i, fetched = Some (?rec i) \<rparr> \<in> set (scanWindow ?L1 ?t0)"
        unfolding win by force
      moreover have "decodedGUID \<lparr> entryTimestampMsUtc = msOf i, fetched = Some (?rec i) \<rparr> = Some (guid i)"
        using decode that by (simp add: decodedGUID_def n st)
      ultimately show ?thesis by (auto simp: getSeenGUIDs_def scanItems_window)
    qed
    then have "filter (\<lambda>i. guid i \<notin> ?seen2) ?S = []" by (simp add: filter_empty_conv)
    then show ?thesis using False by (simp add: syncFeed_def Inr Let_def)
  qed
qed

text \<open>
  C1. Two runs in succession on the feed whose one entry has the identifier \<open>a>b\<close>,
  starting from an empty ledger that accepts every submission. The first run stores
  the item. The second run decodes \<open>ab\<close> from the record of the first, compares it
  with the item's own identifier \<open>a>b\<close>, and stores the item again: the body of the
  item does not decode to the item's identifier, and the second run is not idempotent.
\<close>

theorem second_run_republishes:
  "stored (syncFeed plainText (Inr quotedFeed) (acceptingClient []))
     = [plainItem ''a>b'' 1700000000000 ''One'']
   \<and> getSeenGUIDs
        (ledgerAfter [] (submitted (syncFeed plainText (Inr quotedFeed) (acceptingClient []))))
        (Ms 1700000000000) = {js ''ab''}
   \<and> stored (syncFeed plainText (Inr quotedFeed)
        (acceptingClient
           (ledgerAfter [] (submitted (syncFeed plainText (Inr quotedFeed) (acceptingClient []))))))
     = [plainItem ''a>b'' 1700000000000 ''One'']"
  by code_simp

section \<open>Properties of the backlink\<close>

text \<open>
  C7. \<open>addURL\<close> decides by \<open>markdown.search(url)\<close>, which reads the URL as a regular
  expression. For a URL with a query string the body that holds the URL as text is
  not matched (\<open>/?\<close> is an optional slash), and the backlink is appended although the
  URL is present. For a URL with a dot, a body that does not hold the URL is matched
  (\<open>.\<close> is any character), and the body is returned unchanged although the URL is
  absent. A URL ending in \<open>++\<close> is not a well-formed pattern, and \<open>addURL\<close> throws.
\<close>

theorem addURL_reads_url_as_pattern:
  "addURL plainText (js ''See https://example.com/?p=1'') (js ''https://example.com/?p=1'')
     = Inr (js ''See https://example.com/?p=1'' @ [0x0A, 0x0A]
            @ js ''[Continue Reading'' @ [0xE2, 0x20AC, 0xA6] @ js ''](https://example.com/?p=1)'')
   \<and> addURL plainText (js ''See https://exampleXcom/'') (js ''https://example.com/'')
     = Inr (js ''See https://exampleXcom/'')
   \<and> addURL plainText (js ''C++ notes'') (js ''https://example.com/c++'') = Inl SyntaxError"
  by code_simp

section \<open>Properties of the batch driver\<close>

lemma syncFeeds_everyFeedOnce:
  assumes "transparent ec"
  shows "length (fst (syncFeeds ec sync fs w errs))
           = length errs + length (filter (\<lambda>x. snd x \<noteq> None) (fst (everyFeedOnce sync fs w)))
         \<and> snd (syncFeeds ec sync fs w errs) = snd (everyFeedOnce sync fs w)"
proof (induction fs arbitrary: w errs)
  case Nil
  show ?case by simp
next
  case (Cons f fs)
  let ?m = "js ''Syncing items for '' @ (if name f \<noteq> [] then name f else rssUrl f)"
  obtain r w' where a: "sync f w = (r, w')" by (cases "sync f w")
  obtain r' w'' where b: "ec ?m (sync f) w = (r', w'')" by (cases "ec ?m (sync f) w")
  from assms have "snd (ec ?m (sync f) w) = snd (sync f w)"
    and "(fst (ec ?m (sync f) w) = None) = (fst (sync f w) = None)"
    unfolding transparent_def by blast+
  with a b have w: "w'' = w'" and r: "(r' = None) = (r = None)" by simp_all
  obtain rs wf where c: "everyFeedOnce sync fs w' = (rs, wf)" by (cases "everyFeedOnce sync fs w'")
  show ?case
  proof (cases r')
    case None
    with r have "r = None" by simp
    then show ?thesis using Cons.IH [of w' errs] a b c w None by simp
  next
    case (Some e)
    with r have "r \<noteq> None" by simp
    then show ?thesis using Cons.IH [of w' "errs @ [e]"] a b c w Some by simp
  qed
qed

text \<open>
  C8. With a wrapper that runs the action once and fails exactly when it fails, the
  batch runs the action of every feed of the configuration once, in order, whatever
  the earlier ones did, and ends with \<open>Deno.exit(1)\<close> exactly when the result of at
  least one of them is an error.
\<close>

theorem batch_attempts_every_feed:
  assumes "transparent errorContext"
  shows "syncCommand errorContext sync (Inr feeds) w =
           (if \<exists>x\<in>set (fst (everyFeedOnce sync feeds w)). snd x \<noteq> None then Exit1 else Returned,
            snd (everyFeedOnce sync feeds w))
         \<and> map fst (fst (everyFeedOnce sync feeds w)) = feeds"
proof -
  have m: "map fst (fst (everyFeedOnce sync fs v)) = fs" for fs v
  proof (induction fs arbitrary: v)
    case Nil
    show ?case by simp
  next
    case (Cons f fs)
    obtain r v' where a: "sync f v = (r, v')" by (cases "sync f v")
    obtain rs vf where c: "everyFeedOnce sync fs v' = (rs, vf)" by (cases "everyFeedOnce sync fs v'")
    from Cons.IH [of v'] c have "map fst rs = fs" by simp
    then show ?case using a c by simp
  qed
  obtain errors w' where s: "syncFeeds errorContext sync feeds w [] = (errors, w')"
    by (cases "syncFeeds errorContext sync feeds w []")
  from syncFeeds_everyFeedOnce [OF assms, of sync feeds w "[]"] s
  have l: "length errors = length (filter (\<lambda>x. snd x \<noteq> None) (fst (everyFeedOnce sync feeds w)))"
    and w': "w' = snd (everyFeedOnce sync feeds w)" by simp_all
  have "(0 < length errors) = (\<exists>x\<in>set (fst (everyFeedOnce sync feeds w)). snd x \<noteq> None)"
    unfolding l by (simp add: filter_empty_conv)
  then show ?thesis using s w' m by (simp add: syncCommand_def)
qed


theorem batch_witness:
  "transparent (rethrow :: jsstring \<Rightarrow> (world \<Rightarrow> error option \<times> world) \<Rightarrow> world \<Rightarrow> error option \<times> world)
   \<and> fst (syncCommand rethrow (syncFeedIn plainText) (Inr [feedDown, feedUp]) exampleWorld) = Exit1
   \<and> ledgers (snd (syncCommand rethrow (syncFeedIn plainText) (Inr [feedDown, feedUp]) exampleWorld))
        (js ''id2'') = [listed itemB, listed itemA]
   \<and> map fst (fst (everyFeedOnce (syncFeedIn plainText) [feedDown, feedUp] exampleWorld))
        = [feedDown, feedUp]"
proof -
  have t: "transparent (rethrow :: jsstring \<Rightarrow> (world \<Rightarrow> error option \<times> world) \<Rightarrow> world \<Rightarrow> error option \<times> world)"
    by (simp add: transparent_def rethrow_def)
  note th = batch_attempts_every_feed [OF t, of "syncFeedIn plainText" "[feedDown, feedUp]" exampleWorld]
  have a: "(\<exists>x\<in>set (fst (everyFeedOnce (syncFeedIn plainText) [feedDown, feedUp] exampleWorld)). snd x \<noteq> None) = True"
    by code_simp
  have b: "ledgers (snd (everyFeedOnce (syncFeedIn plainText) [feedDown, feedUp] exampleWorld)) (js ''id2'')
      = [listed itemB, listed itemA]"
    by code_simp
  from th a b t show ?thesis by simp
qed


end
